theory Spec2Isabelle
  imports Main "HOL-Library.Sublist"
begin

section \<open>The tmpl generator of go/arrow/\_tools/tmpl/main.go\<close>

text \<open>
  Go byte slices and strings are modelled as \<^typ>\<open>char list\<close> (a HOL \<^typ>\<open>char\<close> is one
  byte). Go's \<^verbatim>\<open>int\<close> indices are natural numbers: every index the program
  computes lies between 0 and \<^verbatim>\<open>len(raw) + 1\<close>, so no wrap-around can occur. A library
  search that returns \<^verbatim>\<open>-1\<close> for "not found" returns \<^term>\<open>None\<close> here.
\<close>

subsection \<open>Library functions used by the program\<close>

text \<open>\<^verbatim>\<open>bytes.IndexByte\<close> / \<^verbatim>\<open>strings.IndexByte\<close>: index of the first
  occurrence of a byte, \<^verbatim>\<open>-1\<close> (here \<^term>\<open>None\<close>) when there is none.\<close>

fun IndexByte :: "char list \<Rightarrow> char \<Rightarrow> nat option" where
  "IndexByte [] c = None"
| "IndexByte (x # xs) c = (if x = c then Some 0 else map_option Suc (IndexByte xs c))"

text \<open>\<^verbatim>\<open>bytes.Index\<close>: index of the first occurrence of a separator.\<close>

fun Index :: "char list \<Rightarrow> char list \<Rightarrow> nat option" where
  "Index [] sep = (if sep = [] then Some 0 else None)"
| "Index (x # xs) sep =
     (if take (length sep) (x # xs) = sep then Some 0 else map_option Suc (Index xs sep))"

text \<open>\<^verbatim>\<open>strings.Split(s, sep)\<close> for a separator of one byte: the substrings of
  \<open>s\<close> between the occurrences of the separator; one more substring than there are
  occurrences.\<close>

fun Split :: "string \<Rightarrow> char \<Rightarrow> string list" where
  "Split [] c = [[]]"
| "Split (x # xs) c =
     (if x = c then [] # Split xs c else (x # hd (Split xs c)) # tl (Split xs c))"

text \<open>\<^verbatim>\<open>filepath.Ext\<close> (with the path separator \<^verbatim>\<open>/\<close>): the suffix that begins at
  the last dot of the last path element, empty when that element has no dot. The library
  scans the path backwards from its last byte; \<open>ext_loop path k\<close> is that scan with
  \<open>k - 1\<close> the position it looks at.\<close>

fun ext_loop :: "string \<Rightarrow> nat \<Rightarrow> string" where
  "ext_loop path 0 = []"
| "ext_loop path (Suc k) =
     (if path ! k = CHR ''/'' then []
      else if path ! k = CHR ''.'' then drop k path
      else ext_loop path k)"

definition Ext :: "string \<Rightarrow> string" where
  "Ext path = ext_loop path (length path)"

subsection \<open>StripComments\<close>

text \<open>The local variables of \<^verbatim>\<open>StripComments\<close>: the loop counter, the three flags and
  the output buffer.\<close>

record scan =
  i :: nat
  quoted :: bool
  esc :: bool
  comment :: bool
  buf :: "char list"

text \<open>The body of the \<^verbatim>\<open>for\<close> loop, for a counter inside the input. Every
  \<^verbatim>\<open>continue\<close> and the end of the body lead to the post statement \<^verbatim>\<open>i++\<close>,
  which \<open>step\<close> adds.\<close>

definition body :: "char list \<Rightarrow> scan \<Rightarrow> scan" where
  "body raw s =
     (let b = raw ! i s in
      if comment s then
        (if b = CHR ''/'' then
           (case IndexByte (drop (i s + 1) raw) (CHR 0x0A) of
              None \<Rightarrow> s\<lparr>comment := False, i := length raw\<rparr>
            | Some j \<Rightarrow> s\<lparr>comment := False, i := i s + j\<rparr>)
         else if b = CHR ''*'' then
           (case Index (drop (i s + 1) raw) ''*/'' of
              None \<Rightarrow> s\<lparr>i := length raw\<rparr>
            | Some j \<Rightarrow> s\<lparr>i := i s + (j + 2), comment := False\<rparr>)
         else s)
      else if esc s then s\<lparr>esc := False\<rparr>
      else if b = CHR 0x5C \<and> quoted s then s\<lparr>esc := True\<rparr>
      else
        (let s1 = (if b = CHR 0x22 \<or> b = CHR 0x27 then s\<lparr>quoted := \<not> quoted s\<rparr> else s) in
         if b = CHR ''/'' \<and> \<not> quoted s1 then s1\<lparr>comment := True\<rparr>
         else s1\<lparr>buf := buf s1 @ [b]\<rparr>))"

definition step :: "char list \<Rightarrow> scan \<Rightarrow> scan" where
  "step raw s = (let s' = body raw s in s'\<lparr>i := Suc (i s')\<rparr>)"

lemma i_body_ge: "i s < length raw \<Longrightarrow> i s \<le> i (body raw s)"
  by (simp add: body_def Let_def split: option.split)

lemma i_step_gt: "i s < length raw \<Longrightarrow> i s < i (step raw s)"
  using i_body_ge [of s raw] by (simp add: step_def Let_def)

function loop :: "char list \<Rightarrow> scan \<Rightarrow> scan" where
  "loop raw s = (if i s < length raw then loop raw (step raw s) else s)"
  by pat_completeness auto
termination
proof (relation "measure (\<lambda>(raw, s). Suc (length raw) - i s)")
  show "wf (measure (\<lambda>(raw, s). Suc (length raw) - i s))" by simp
next
  fix raw :: "char list" and s :: scan
  assume "i s < length raw"
  then show "((raw, step raw s), (raw, s)) \<in> measure (\<lambda>(raw, s). Suc (length raw) - i s)"
    using i_step_gt [of s raw] by simp
qed

declare loop.simps [simp del]

definition init :: scan where
  "init = \<lparr>i = 0, quoted = False, esc = False, comment = False, buf = []\<rparr>"

definition StripComments :: "char list \<Rightarrow> char list" where
  "StripComments raw =
     (let s = loop raw init in
      if quoted s \<or> esc s \<or> comment s then raw else buf s)"

text \<open>The states the loop passes through on an input: the initial state and every state
  an iteration produces from one of them. \<open>steps n\<close> runs at most \<open>n\<close> iterations.\<close>

inductive reach :: "char list \<Rightarrow> scan \<Rightarrow> bool" for raw :: "char list" where
  reach_init: "reach raw init"
| reach_step: "reach raw s \<Longrightarrow> i s < length raw \<Longrightarrow> reach raw (step raw s)"

fun steps :: "nat \<Rightarrow> char list \<Rightarrow> scan \<Rightarrow> scan" where
  "steps 0 raw s = s"
| "steps (Suc n) raw s = (if i s < length raw then steps n raw (step raw s) else s)"

text \<open>A specification-level predicate on output buffers, used to state the loop invariant
  behind idempotence: \<open>settled q bs\<close> reads \<open>bs\<close> starting with quote flag \<open>q\<close> and
  is \<open>Some q'\<close> when no byte of \<open>bs\<close> would start an escape or a comment, where \<open>q'\<close>
  is the quote flag after the last byte; it is \<open>None\<close> otherwise.\<close>

fun settled :: "bool \<Rightarrow> char list \<Rightarrow> bool option" where
  "settled q [] = Some q"
| "settled q (b # bs) =
     (if b = CHR 0x5C \<and> q then None
      else let q' = (if b = CHR 0x22 \<or> b = CHR 0x27 then \<not> q else q) in
        if b = CHR ''/'' \<and> \<not> q' then None else settled q' bs)"

subsection \<open>Exits, path arguments and variable tokens\<close>

text \<open>\<^verbatim>\<open>errExit\<close> writes the formatted message and a newline to the error stream and
  ends the process with status 1. A Go function that may call it returns
  \<open>exit + 'a\<close> here: \<open>Inl\<close> carries the exit status and what was written to the
  error stream, \<open>Inr\<close> the value returned. The argument of \<open>errExit\<close> is the text
  that \<^verbatim>\<open>fmt.Fprintf\<close> prints. Where the source gives a constant format whose verbs
  are all \<^verbatim>\<open>%s\<close>, each with a string operand, that text is the format with every
  operand in the place of its verb, and the model writes it out. Where the source gives a
  text not known in advance as the format (\<^verbatim>\<open>mustReadAll\<close>, \<^verbatim>\<open>fileMode\<close>), the
  text printed is left to the library, see \<open>Sprintf\<close> below.\<close>

datatype exit = Exit (status: nat) (stderr: string)

definition errExit :: "string \<Rightarrow> exit" where
  "errExit msg = Exit 1 (msg @ [CHR 0x0A])"

text \<open>The struct \<^verbatim>\<open>pathSpec\<close>; its field \<^verbatim>\<open>in\<close> is written \<open>in'\<close>.\<close>

record pathSpec =
  in' :: string
  out :: string

definition IsGoFile :: "pathSpec \<Rightarrow> bool" where
  "IsGoFile p = (Ext (out p) = ''.go'')"

definition parsePath :: "string \<Rightarrow> exit + string \<times> string" where
  "parsePath path =
     (case IndexByte path (CHR ''='') of
        None \<Rightarrow>
          if Ext path \<noteq> ''.tmpl''
          then Inl (errExit (''template file '' @ [CHR 0x27] @ path @ [CHR 0x27] @
                             '' must have .tmpl extension''))
          else Inr (path, take (length path - length ''.tmpl'') path)
      | Some p \<Rightarrow> Inr (take p path, drop (p + 1) path))"

text \<open>\<^verbatim>\<open>listValue.Set\<close>: the map is passed in and the updated map returned; an
  error return is \<open>Inl\<close> with the error text.\<close>

definition Set :: "(string \<rightharpoonup> string) \<Rightarrow> string \<Rightarrow> string + (string \<rightharpoonup> string)" where
  "Set l v =
     (let nv = Split v (CHR ''='') in
      if length nv \<noteq> 2 then Inl (''expected NAME=VALUE, got '' @ v)
      else Inr (l(nv ! 0 \<mapsto> nv ! 1)))"

subsection \<open>The generation pipeline\<close>

text \<open>The struct \<^verbatim>\<open>data\<close> handed to every template; \<open>'j\<close> is the type of parsed JSON
  values.\<close>

record 'j data =
  In :: 'j
  D :: "string \<rightharpoonup> string"

text \<open>What running the external \<^verbatim>\<open>goimports\<close> command can give: its standard output on
  success, an \<^verbatim>\<open>*exec.ExitError\<close> with the captured standard output and standard error,
  or another error with the output so far.\<close>

datatype cmd_result = Success string | ExitError string string | OtherError string

text \<open>
  The operating system and the libraries the program calls are parameters of the model.
  \<open>'w\<close> is the state of the file system, \<open>'t\<close> the type of parsed templates. A call
  that can fail returns \<open>Inl\<close> with the error text.
  \<^item> \<open>ReadFile\<close>: \<^verbatim>\<open>ioutil.ReadFile\<close>;
  \<^item> \<open>Stat\<close>: \<^verbatim>\<open>os.Stat\<close> followed by \<^verbatim>\<open>Mode()\<close>;
  \<^item> \<open>WriteFile\<close>: \<^verbatim>\<open>os.WriteFile\<close>, which returns an optional error and leaves a new
    file system state;
  \<^item> \<open>Parse\<close>: \<^verbatim>\<open>template.New("gen").Funcs(funcs).Parse\<close>;
  \<^item> \<open>Execute\<close>: \<^verbatim>\<open>Template.Execute\<close>, giving the bytes appended to the buffer;
  \<^item> \<open>Source\<close>: \<^verbatim>\<open>format.Source\<close>;
  \<^item> \<open>goimports\<close>: running the \<^verbatim>\<open>goimports\<close> command on a standard input;
  \<^item> \<open>LookPath\<close>: \<^verbatim>\<open>exec.LookPath\<close>;
  \<^item> \<open>Unmarshal\<close>: \<^verbatim>\<open>json.Unmarshal\<close> into an empty interface;
  \<^item> \<open>Sprintf\<close>: what the \<^verbatim>\<open>fmt\<close> package prints for a format given with no
    operand at all; a \<^verbatim>\<open>%\<close> in the format is expanded there (\<^verbatim>\<open>%d\<close> alone prints
    \<^verbatim>\<open>%!d(MISSING)\<close>).
\<close>

record ('w, 't, 'j) env =
  ReadFile :: "'w \<Rightarrow> string \<Rightarrow> string + string"
  Stat :: "'w \<Rightarrow> string \<Rightarrow> string + nat"
  WriteFile :: "'w \<Rightarrow> string \<Rightarrow> string \<Rightarrow> nat \<Rightarrow> string option \<times> 'w"
  Parse :: "string \<Rightarrow> string + 't"
  Execute :: "'t \<Rightarrow> 'j data \<Rightarrow> string + string"
  Source :: "string \<Rightarrow> string + string"
  goimports :: "string \<Rightarrow> cmd_result"
  LookPath :: "'w \<Rightarrow> string \<Rightarrow> string + string"
  Unmarshal :: "string \<Rightarrow> string + 'j"
  Sprintf :: "string \<Rightarrow> string"

text \<open>The model keeps a log of the calls of \<^verbatim>\<open>os.WriteFile\<close>: path, contents and
  mode of each call, in order.\<close>

type_synonym wcall = "string \<times> string \<times> nat"

text \<open>\<^verbatim>\<open>mustReadAll\<close> and \<^verbatim>\<open>fileMode\<close> call \<^verbatim>\<open>errExit(err.Error())\<close>: the text of
  the error is the format and there is no operand.\<close>

definition mustReadAll :: "('w, 't, 'j) env \<Rightarrow> 'w \<Rightarrow> string \<Rightarrow> exit + string" where
  "mustReadAll E w path =
     (case ReadFile E w path of
        Inl err \<Rightarrow> Inl (errExit (Sprintf E err))
      | Inr d \<Rightarrow> Inr d)"

definition fileMode :: "('w, 't, 'j) env \<Rightarrow> 'w \<Rightarrow> string \<Rightarrow> exit + nat" where
  "fileMode E w path =
     (case Stat E w path of
        Inl err \<Rightarrow> Inl (errExit (Sprintf E err))
      | Inr m \<Rightarrow> Inr m)"

definition formatSource :: "('w, 't, 'j) env \<Rightarrow> string \<Rightarrow> string + string" where
  "formatSource E inp =
     (case goimports E inp of
        ExitError outp err \<Rightarrow> Inl (''error running goimports: '' @ err)
      | OtherError outp \<Rightarrow> Inl (''error running goimports: '' @ outp)
      | Success outp \<Rightarrow> Inr outp)"

text \<open>One iteration of the loop of \<^verbatim>\<open>process\<close>, on the file system state and the
  log of writes. The result is \<open>Some\<close> of the exit when the iteration calls
  \<^verbatim>\<open>errExit\<close>, and \<open>None\<close> when it reaches its end. The mode is looked up before the
  write, as an argument of the call; the value \<^verbatim>\<open>os.WriteFile\<close> returns is not looked
  at by the source, so only the file system state it leaves is kept.\<close>

definition process_spec ::
  "('w, 't, 'j) env \<Rightarrow> (string \<Rightarrow> string + string) \<Rightarrow> 'j data \<Rightarrow> pathSpec \<Rightarrow>
   'w \<times> wcall list \<Rightarrow> exit option \<times> 'w \<times> wcall list" where
  "process_spec E formatter d spec st =
     (case mustReadAll E (fst st) (in' spec) of
        Inl x \<Rightarrow> (Some x, st)
      | Inr src \<Rightarrow>
     (case Parse E src of
        Inl err \<Rightarrow>
          (Some (errExit (''error processing template '' @ [CHR 0x27] @ in' spec @ [CHR 0x27] @
                           '': '' @ err)), st)
      | Inr t \<Rightarrow>
     (let buf = (if IsGoFile spec
                 then ''// Code generated by '' @ in' spec @ ''. DO NOT EDIT.'' @ [CHR 0x0A] @
                      [CHR 0x0A]
                 else [])
      in
      case Execute E t d of
        Inl err \<Rightarrow>
          (Some (errExit (''error executing template '' @ [CHR 0x27] @ in' spec @ [CHR 0x27] @
                           '': '' @ err)), st)
      | Inr rendered \<Rightarrow>
     (let generated = buf @ rendered in
      case (if IsGoFile spec then formatter generated else Inr generated) of
        Inl err \<Rightarrow>
          (Some (errExit (''error formatting '' @ [CHR 0x27] @ in' spec @ [CHR 0x27] @
                           '': '' @ err)), st)
      | Inr generated' \<Rightarrow>
     (case fileMode E (fst st) (in' spec) of
        Inl x \<Rightarrow> (Some x, st)
      | Inr mode \<Rightarrow>
          (None, snd (WriteFile E (fst st) (out spec) generated' mode),
                 snd st @ [(out spec, generated', mode)]))))))"

fun process ::
  "('w, 't, 'j) env \<Rightarrow> (string \<Rightarrow> string + string) \<Rightarrow> 'j data \<Rightarrow> pathSpec list \<Rightarrow>
   'w \<times> wcall list \<Rightarrow> exit option \<times> 'w \<times> wcall list" where
  "process E formatter d [] st = (None, st)"
| "process E formatter d (spec # specs) st =
     (case process_spec E formatter d spec st of
        (Some x, st') \<Rightarrow> (Some x, st')
      | (None, st') \<Rightarrow> process E formatter d specs st')"

text \<open>The loop of \<^verbatim>\<open>main\<close> over the path arguments.\<close>

fun parsePaths :: "string list \<Rightarrow> exit + pathSpec list" where
  "parsePaths [] = Inr []"
| "parsePaths (p # ps) =
     (case parsePath p of
        Inl x \<Rightarrow> Inl x
      | Inr (a, b) \<Rightarrow>
          (case parsePaths ps of
             Inl x \<Rightarrow> Inl x
           | Inr specs \<Rightarrow> Inr (\<lparr>in' = a, out = b\<rparr> # specs)))"

definition readData :: "('w, 't, 'j) env \<Rightarrow> 'w \<Rightarrow> string \<Rightarrow> exit + 'j" where
  "readData E w path =
     (case mustReadAll E w path of
        Inl x \<Rightarrow> Inl x
      | Inr d \<Rightarrow>
          (case Unmarshal E (StripComments d) of
             Inl err \<Rightarrow> Inl (errExit (''invalid JSON data: '' @ err))
           | Inr v \<Rightarrow> Inr v))"

text \<open>\<^verbatim>\<open>main\<close> after \<^verbatim>\<open>flag.Parse\<close>: the arguments are the value of
  \<^verbatim>\<open>-data\<close>, the value of \<^verbatim>\<open>-i\<close>, the map collected from the \<^verbatim>\<open>-d\<close> flags and
  the remaining arguments. The formatter chosen here is passed to \<open>process\<close>.\<close>

definition main ::
  "('w, 't, 'j) env \<Rightarrow> string \<Rightarrow> bool \<Rightarrow> (string \<rightharpoonup> string) \<Rightarrow> string list \<Rightarrow> 'w \<Rightarrow>
   exit option \<times> 'w \<times> wcall list" where
  "main E dataArg gi dvars paths w =
     (if dataArg = [] then (Some (errExit ''data option is required''), w, [])
      else
        case (if gi
              then (case LookPath E w ''goimports'' of
                      Inl err \<Rightarrow> Inl (errExit (''failed to find goimports: '' @ err))
                    | Inr p \<Rightarrow> Inr (formatSource E))
              else Inr (Source E)) of
          Inl x \<Rightarrow> (Some x, w, [])
        | Inr formatter \<Rightarrow>
            if paths = [] then (Some (errExit ''no tmpl files specified''), w, [])
            else
              case parsePaths paths of
                Inl x \<Rightarrow> (Some x, w, [])
              | Inr specs \<Rightarrow>
                  (case readData E w dataArg of
                     Inl x \<Rightarrow> (Some x, w, [])
                   | Inr v \<Rightarrow> process E formatter \<lparr>In = v, D = dvars\<rparr> specs (w, [])))"

text \<open>The status the process ends with: that of the exit, or 0 when \<^verbatim>\<open>main\<close>
  returns.\<close>

definition exit_status :: "exit option \<Rightarrow> nat" where
  "exit_status r = (case r of None \<Rightarrow> 0 | Some x \<Rightarrow> status x)"

subsection \<open>A small concrete environment\<close>

text \<open>
  Stand-ins for the operating system and the libraries, to evaluate the pipeline on
  concrete inputs. The file system is a list of paths with contents; reading or inspecting
  a path that is not in it fails as a missing file does, and writing below a directory
  fails, no directory being there. The library stand-ins give what the libraries give on
  the inputs used in this theory, and are not meant to agree with them elsewhere:
  \<^item> a template without an action parses and renders to its own text; the template
    \<^verbatim>\<open>{{\<close> does not parse; the template \<^verbatim>\<open>{{.X}}\<close> parses and fails when executed, the
    struct \<^verbatim>\<open>data\<close> having no field \<^verbatim>\<open>X\<close>;
  \<^item> the formatter returns a file that is already formatted as it is, and rejects the
    one file below that has a closing brace where a declaration should start;
  \<^item> \<open>demo_sprintf\<close> prints a format with no operand: \<^verbatim>\<open>%%\<close> as \<^verbatim>\<open>%\<close>, a
    \<^verbatim>\<open>%\<close> followed at once by a verb letter as \<^verbatim>\<open>%!\<close>, the letter and
    \<^verbatim>\<open>(MISSING)\<close>, a \<^verbatim>\<open>%\<close> at the end as \<^verbatim>\<open>%!(NOVERB)\<close>, every other byte as it
    is (flags, widths and indices are not covered).
\<close>

fun demo_sprintf :: "string \<Rightarrow> string" where
  "demo_sprintf [] = []"
| "demo_sprintf [c] = (if c = CHR ''%'' then ''%!(NOVERB)'' else [c])"
| "demo_sprintf (c # v # cs) =
     (if c = CHR ''%''
      then (if v = CHR ''%'' then CHR ''%'' # demo_sprintf cs
            else ''%!'' @ [v] @ ''(MISSING)'' @ demo_sprintf cs)
      else c # demo_sprintf (v # cs))"

definition demo_exec_error :: string where
  "demo_exec_error =
     ''template: gen:1:2: executing '' @ [CHR 0x22] @ ''gen'' @ [CHR 0x22] @ '' at <.X>: can'' @
     [CHR 0x27] @ ''t evaluate field X in type *main.data''"

definition demo_format_error :: string where
  "demo_format_error = ''4:1: expected declaration, found '' @ [CHR 0x27] @ ''}'' @ [CHR 0x27]"

definition demo_env :: "((string \<times> string) list, string, string) env" where
  "demo_env =
     \<lparr>ReadFile = (\<lambda>w p. case map_of w p of
                     None \<Rightarrow> Inl (''open '' @ p @ '': no such file or directory'')
                   | Some c \<Rightarrow> Inr c),
      Stat = (\<lambda>w p. case map_of w p of
                     None \<Rightarrow> Inl (''stat '' @ p @ '': no such file or directory'')
                   | Some c \<Rightarrow> Inr 420),
      WriteFile = (\<lambda>w p c m. if CHR ''/'' \<in> set p
                     then (Some (''open '' @ p @ '': no such file or directory''), w)
                     else (None, (p, c) # w)),
      Parse = (\<lambda>src. if src = ''{{'' then Inl ''template: gen:1: unclosed action''
                     else Inr src),
      Execute = (\<lambda>t d. if t = ''{{.X}}'' then Inl demo_exec_error else Inr t),
      Source = (\<lambda>b. if b = ''// Code generated by bad.tmpl. DO NOT EDIT.'' @ [CHR 0x0A] @
                            [CHR 0x0A] @ ''package p'' @ [CHR 0x0A] @ ''}'' @ [CHR 0x0A]
                     then Inl demo_format_error else Inr b),
      goimports = (\<lambda>b. Success b),
      LookPath = (\<lambda>w p. Inr (''/usr/bin/'' @ p)),
      Unmarshal = (\<lambda>b. Inr b),
      Sprintf = demo_sprintf\<rparr>"

definition demo_files :: "(string \<times> string) list" where
  "demo_files =
     [(''data.json'', ''{}''), (''a.tmpl'', ''hello''),
      (''p.tmpl'', ''package p'' @ [CHR 0x0A]),
      (''open.tmpl'', ''{{''), (''field.tmpl'', ''{{.X}}''),
      (''bad.tmpl'', ''package p'' @ [CHR 0x0A] @ ''}'' @ [CHR 0x0A])]"


section \<open>Properties\<close>

subsection \<open>Invariants of the scanning loop\<close>

text \<open>A property that holds before the loop and is kept by every iteration holds of the
  state the loop ends in.\<close>

lemma loop_invariant_aux:
  "P s \<Longrightarrow> (\<forall>t. P t \<and> i t < length raw \<longrightarrow> P (step raw t)) \<Longrightarrow> P (loop raw s)"
proof (induction raw s rule: loop.induct)
  case (1 raw s)
  show ?case
  proof (cases "i s < length raw")
    case True
    have "P (step raw s)" using "1.prems" True by blast
    then have "P (loop raw (step raw s))" using "1.IH" True "1.prems"(2) by blast
    then show ?thesis using True by (subst loop.simps) simp
  next
    case False
    then show ?thesis using "1.prems"(1) by (subst loop.simps) simp
  qed
qed

lemma loop_invariant:
  assumes "P s" and "\<And>t. P t \<Longrightarrow> i t < length raw \<Longrightarrow> P (step raw t)"
  shows "P (loop raw s)"
  by (rule loop_invariant_aux [of P, OF assms(1)]) (use assms(2) in blast)

lemma subseq_take_mono: "subseq xs (take m raw) \<Longrightarrow> m \<le> n \<Longrightarrow> subseq xs (take n raw)"
proof -
  assume a: "subseq xs (take m raw)" and mn: "m \<le> n"
  have "prefix (take m raw) (take n raw)"
    using mn by (metis min.absorb1 take_is_prefix take_take)
  then have "subseq (take m raw) (take n raw)" by (rule prefix_imp_subseq)
  with a show ?thesis by (rule subseq_order.trans)
qed

lemma step_subseq:
  assumes "i s < length raw" and "subseq (buf s) (take (i s) raw)"
  shows "subseq (buf (step raw s)) (take (i (step raw s)) raw)"
proof (cases "buf (step raw s) = buf s")
  case True
  then show ?thesis using assms i_step_gt [OF assms(1)]
    by (metis less_imp_le subseq_take_mono)
next
  case False
  then have b: "buf (step raw s) = buf s @ [raw ! i s]" and n: "i (step raw s) = Suc (i s)"
    by (auto simp: step_def body_def Let_def split: option.splits if_splits)
  have "take (Suc (i s)) raw = take (i s) raw @ [raw ! i s]"
    using assms(1) by (simp add: take_Suc_conv_app_nth)
  then show ?thesis using assms(2) b n by (simp add: list_emb_append_mono)
qed

lemma loop_subseq: "subseq (buf (loop raw init)) raw"
proof -
  have "subseq (buf (loop raw init)) (take (i (loop raw init)) raw)"
    by (rule loop_invariant [where P = "\<lambda>s. subseq (buf s) (take (i s) raw)"])
       (simp_all add: init_def step_subseq)
  then show ?thesis by (metis subseq_take_mono take_all le_cases nat_le_linear)
qed

text \<open>
  Claim C7. The result of \<^verbatim>\<open>StripComments\<close> is a subsequence of its input: every
  byte of the result is copied from the input, in the input's order, and no byte is
  introduced. This holds for every input, so in particular for every input whose quotes
  and comments are balanced (where the result is the output buffer).
\<close>

theorem StripComments_subseq: "subseq (StripComments raw) raw"
  by (simp add: StripComments_def Let_def loop_subseq)

text \<open>The buffer never holds a byte that a second pass would treat as the start of an
  escape or of a comment, and the quote flag is the one a second pass would compute.\<close>

lemma settled_append:
  "settled q (xs @ ys) = (case settled q xs of None \<Rightarrow> None | Some q' \<Rightarrow> settled q' ys)"
  by (induction xs arbitrary: q) (simp_all add: Let_def)

lemma step_settled:
  assumes "settled False (buf s) = Some (quoted s)"
  shows "settled False (buf (step raw s)) = Some (quoted (step raw s))"
  using assms
  by (auto simp: step_def body_def Let_def settled_append split: option.splits)

lemma loop_settled: "settled False (buf (loop raw init)) = Some (quoted (loop raw init))"
  by (rule loop_invariant [where P = "\<lambda>s. settled False (buf s) = Some (quoted s)"])
     (simp_all add: init_def step_settled)

lemma loop_settled_input:
  "i s \<le> length y \<Longrightarrow> \<not> esc s \<Longrightarrow> \<not> comment s \<Longrightarrow>
   settled (quoted s) (drop (i s) y) = Some False \<Longrightarrow>
   loop y s = s\<lparr>i := length y, quoted := False, buf := buf s @ drop (i s) y\<rparr>"
proof (induction y s rule: loop.induct)
  case (1 y s)
  show ?case
  proof (cases "i s < length y")
    case False
    with "1.prems" show ?thesis by (subst loop.simps) simp
  next
    case True
    let ?b = "y ! i s"
    let ?q = "if ?b = CHR 0x22 \<or> ?b = CHR 0x27 then \<not> quoted s else quoted s"
    have d: "drop (i s) y = ?b # drop (Suc (i s)) y"
      using True by (simp add: Cons_nth_drop_Suc)
    from "1.prems"(4) have nb: "\<not> (?b = CHR 0x5C \<and> quoted s)"
      and ns: "\<not> (?b = CHR ''/'' \<and> \<not> ?q)"
      and rest: "settled ?q (drop (Suc (i s)) y) = Some False"
      unfolding d by (auto simp: Let_def split: if_splits)
    have st: "step y s = s\<lparr>i := Suc (i s), quoted := ?q, buf := buf s @ [?b]\<rparr>"
      using "1.prems"(2,3) nb ns by (auto simp: step_def body_def Let_def)
    have "loop y (step y s) =
          (step y s)\<lparr>i := length y, quoted := False,
             buf := buf (step y s) @ drop (i (step y s)) y\<rparr>"
      using True "1.prems"(2,3) rest by (intro "1.IH") (simp_all add: st)
    then show ?thesis using True by (subst loop.simps) (simp add: st d)
  qed
qed

lemma StripComments_settled: "settled False y = Some False \<Longrightarrow> StripComments y = y"
  using loop_settled_input [of init y] by (simp add: StripComments_def init_def)

text \<open>
  Claim C6. \<^verbatim>\<open>StripComments\<close> is idempotent: stripping an already stripped input
  changes nothing.
\<close>

theorem StripComments_idem: "StripComments (StripComments x) = StripComments x"
proof (cases "quoted (loop x init) \<or> esc (loop x init) \<or> comment (loop x init)")
  case True
  then show ?thesis by (simp add: StripComments_def)
next
  case False
  then have "StripComments x = buf (loop x init)" by (simp add: StripComments_def)
  moreover have "settled False (buf (loop x init)) = Some False"
    using loop_settled [of x] False by simp
  ultimately show ?thesis by (simp add: StripComments_settled)
qed

subsection \<open>States on the run of the loop\<close>

lemma reach_steps_aux: "reach raw s \<Longrightarrow> reach raw (steps n raw s)"
  by (induction n arbitrary: s) (auto intro: reach_step)

lemma reach_steps: "reach raw (steps n raw init)"
  by (rule reach_steps_aux [OF reach_init])

lemma loop_step: "i s < length raw \<Longrightarrow> loop raw (step raw s) = loop raw s"
  by (subst (2) loop.simps) simp

lemma loop_done: "length raw \<le> i s \<Longrightarrow> loop raw s = s"
  by (subst loop.simps) simp

lemma reach_loop: "reach raw s \<Longrightarrow> loop raw s = loop raw init"
  by (induction rule: reach.induct) (simp_all add: loop_step)

lemma reach_comment: "reach raw s \<Longrightarrow> comment s \<Longrightarrow> \<not> quoted s \<and> \<not> esc s"
proof (induction rule: reach.induct)
  case reach_init
  then show ?case by (simp add: init_def)
next
  case (reach_step s)
  then show ?case
    by (auto simp: step_def body_def Let_def split: option.splits if_splits)
qed

lemma comment_skip:
  "comment s \<Longrightarrow> n \<le> length raw \<Longrightarrow> i s \<le> n \<Longrightarrow>
   (\<forall>k. i s \<le> k \<and> k < n \<longrightarrow> raw ! k \<noteq> CHR ''/'' \<and> raw ! k \<noteq> CHR ''*'') \<Longrightarrow>
   loop raw s = loop raw (s\<lparr>i := n\<rparr>)"
proof (induction "n - i s" arbitrary: s)
  case 0
  then show ?case by simp
next
  case (Suc d)
  then have lt: "i s < n" by simp
  then have il: "i s < length raw" using Suc.prems(2) by simp
  have "raw ! i s \<noteq> CHR ''/'' \<and> raw ! i s \<noteq> CHR ''*''" using Suc.prems(4) lt by simp
  then have st: "step raw s = s\<lparr>i := Suc (i s)\<rparr>"
    using Suc.prems(1) by (simp add: step_def body_def Let_def)
  have "loop raw (s\<lparr>i := Suc (i s)\<rparr>) = loop raw (s\<lparr>i := Suc (i s)\<rparr>\<lparr>i := n\<rparr>)"
    using Suc.hyps(2) Suc.prems lt by (intro Suc.hyps(1)) auto
  then show ?case using loop_step [OF il] st by simp
qed

lemma reach_esc: "reach raw s \<Longrightarrow> esc s \<Longrightarrow> quoted s"
proof (induction rule: reach.induct)
  case reach_init
  then show ?case by (simp add: init_def)
next
  case (reach_step s)
  then show ?case
    by (auto simp: step_def body_def Let_def split: option.splits if_splits)
qed

subsection \<open>Unterminated input\<close>

text \<open>
  Claim C2, as amended. If the scan ends inside a quoted string, with a pending escape or
  in comment mode, \<^verbatim>\<open>StripComments\<close> returns the input unchanged; a block comment
  with no closing \<^verbatim>\<open>*/\<close> ends the scan in comment mode and so returns the input
  unchanged. A line comment with no following newline is closed by the end of the input:
  the comment flag is cleared before the search for the newline, and the result is the
  buffer built so far, without the comment.
\<close>

theorem unterminated:
  assumes "reach raw s"
  shows "(length raw \<le> i s \<and> (quoted s \<or> esc s \<or> comment s) \<longrightarrow> StripComments raw = raw) \<and>
         (i s < length raw \<and> comment s \<and> raw ! i s = CHR ''*'' \<and>
            Index (drop (i s + 1) raw) ''*/'' = None \<longrightarrow> StripComments raw = raw) \<and>
         (i s < length raw \<and> comment s \<and> raw ! i s = CHR ''/'' \<and>
            IndexByte (drop (i s + 1) raw) (CHR 0x0A) = None \<longrightarrow> StripComments raw = buf s)"
proof (intro conjI impI)
  assume "length raw \<le> i s \<and> (quoted s \<or> esc s \<or> comment s)"
  then have "loop raw init = s" "quoted s \<or> esc s \<or> comment s"
    using reach_loop [OF assms] by (simp_all add: loop_done)
  then show "StripComments raw = raw" by (simp add: StripComments_def)
next
  assume a: "i s < length raw \<and> comment s \<and> raw ! i s = CHR ''*'' \<and>
            Index (drop (i s + 1) raw) ''*/'' = None"
  then have "step raw s = s\<lparr>i := Suc (length raw)\<rparr>"
    by (simp add: step_def body_def Let_def)
  then have "loop raw s = s\<lparr>i := Suc (length raw)\<rparr>"
    using a loop_step [of s raw] by (simp add: loop_done)
  then have "comment (loop raw init)" using reach_loop [OF assms] a by simp
  then show "StripComments raw = raw" by (simp add: StripComments_def)
next
  assume a: "i s < length raw \<and> comment s \<and> raw ! i s = CHR ''/'' \<and>
            IndexByte (drop (i s + 1) raw) (CHR 0x0A) = None"
  then have "step raw s = s\<lparr>comment := False, i := Suc (length raw)\<rparr>"
    by (simp add: step_def body_def Let_def)
  then have "loop raw s = s\<lparr>comment := False, i := Suc (length raw)\<rparr>"
    using a loop_step [of s raw] by (simp add: loop_done)
  then have "loop raw init = s\<lparr>comment := False, i := Suc (length raw)\<rparr>"
    using reach_loop [OF assms] by simp
  moreover have "\<not> quoted s \<and> \<not> esc s" using reach_comment [OF assms] a by simp
  ultimately show "StripComments raw = buf s" by (simp add: StripComments_def)
qed

theorem unterminated_witness:
  "(let raw = [CHR 0x22, CHR ''a'']; s = steps 2 raw init in
      reach raw s \<and> length raw \<le> i s \<and> quoted s \<and> StripComments raw = raw) \<and>
   (let raw = [CHR ''{'', CHR 0x22, CHR ''a'', CHR 0x22] @ '': 1, /* oops'';
        s = steps 10 raw init in
      reach raw s \<and> i s < length raw \<and> comment s \<and> raw ! i s = CHR ''*'' \<and>
      Index (drop (i s + 1) raw) ''*/'' = None \<and> StripComments raw = raw) \<and>
   (let raw = ''a//b''; s = steps 2 raw init in
      reach raw s \<and> i s < length raw \<and> comment s \<and> raw ! i s = CHR ''/'' \<and>
      IndexByte (drop (i s + 1) raw) (CHR 0x0A) = None \<and> StripComments raw = buf s \<and>
      buf s = ''a'')"
proof -
  let ?r1 = "[CHR 0x22, CHR ''a'']"
  let ?r2 = "[CHR ''{'', CHR 0x22, CHR ''a'', CHR 0x22] @ '': 1, /* oops''"
  let ?r3 = "''a//b''"
  have g1: "reach r s \<Longrightarrow> length r \<le> i s \<and> quoted s \<Longrightarrow>
      reach r s \<and> length r \<le> i s \<and> quoted s \<and> StripComments r = r" for r s
    using unterminated [of r s] by blast
  have g2: "reach r s \<Longrightarrow>
      i s < length r \<and> comment s \<and> r ! i s = CHR ''*'' \<and> Index (drop (i s + 1) r) ''*/'' = None \<Longrightarrow>
      reach r s \<and> i s < length r \<and> comment s \<and> r ! i s = CHR ''*'' \<and>
      Index (drop (i s + 1) r) ''*/'' = None \<and> StripComments r = r" for r s
    using unterminated [of r s] by blast
  have g3: "reach r s \<Longrightarrow>
      i s < length r \<and> comment s \<and> r ! i s = CHR ''/'' \<and>
      IndexByte (drop (i s + 1) r) (CHR 0x0A) = None \<Longrightarrow> buf s = ''a'' \<Longrightarrow>
      reach r s \<and> i s < length r \<and> comment s \<and> r ! i s = CHR ''/'' \<and>
      IndexByte (drop (i s + 1) r) (CHR 0x0A) = None \<and> StripComments r = buf s \<and> buf s = ''a''"
    for r s
    using unterminated [of r s] by blast
  have h1: "length ?r1 \<le> i (steps 2 ?r1 init) \<and> quoted (steps 2 ?r1 init)"
    by code_simp
  have h2: "i (steps 10 ?r2 init) < length ?r2 \<and> comment (steps 10 ?r2 init) \<and>
      ?r2 ! i (steps 10 ?r2 init) = CHR ''*'' \<and>
      Index (drop (i (steps 10 ?r2 init) + 1) ?r2) ''*/'' = None"
    by code_simp
  have h3: "i (steps 2 ?r3 init) < length ?r3 \<and> comment (steps 2 ?r3 init) \<and>
      ?r3 ! i (steps 2 ?r3 init) = CHR ''/'' \<and>
      IndexByte (drop (i (steps 2 ?r3 init) + 1) ?r3) (CHR 0x0A) = None"
    by code_simp
  have b3: "buf (steps 2 ?r3 init) = ''a''" by code_simp
  show ?thesis
    unfolding Let_def
    by (intro conjI g1 [OF reach_steps h1, THEN conjunct1] g1 [OF reach_steps h1, THEN conjunct2]
      g2 [OF reach_steps h2, THEN conjunct1] g2 [OF reach_steps h2, THEN conjunct2]
      g3 [OF reach_steps h3 b3, THEN conjunct1] g3 [OF reach_steps h3 b3, THEN conjunct2])
qed

text \<open>The claim as stated fails: a line comment that runs to the end of the input is
  stripped, the input is not returned unchanged.\<close>

theorem line_comment_eof_counterexample: "StripComments ''a//b'' \<noteq> ''a//b''"
  by code_simp

subsection \<open>A slash that starts no comment\<close>

text \<open>
  Claim C10. After a \<^verbatim>\<open>/\<close> outside a quoted string the scanner is in comment mode.
  If the bytes that follow, up to position \<open>n\<close>, are neither \<^verbatim>\<open>/\<close> nor
  \<^verbatim>\<open>*\<close>, they are all dropped and the scanner is still in comment mode at \<open>n\<close>
  with the same buffer. If \<open>n\<close> is the end of the input, the input is returned unchanged
  (so \<^verbatim>\<open>a/b\<close> is returned as it is); if the byte at \<open>n\<close> is \<^verbatim>\<open>/\<close> it is
  treated as the second slash of a line comment, and if it is \<^verbatim>\<open>*\<close> as the star of a
  block comment.
\<close>

theorem slash_comment_mode:
  assumes "reach raw s" and "i s < length raw" and "\<not> comment s" and "\<not> quoted s"
    and "raw ! i s = CHR ''/''" and "i s < n" and "n \<le> length raw"
    and "\<forall>k. i s < k \<and> k < n \<longrightarrow> raw ! k \<noteq> CHR ''/'' \<and> raw ! k \<noteq> CHR ''*''"
  shows "loop raw s = loop raw (s\<lparr>comment := True, i := n\<rparr>) \<and>
    (n = length raw \<longrightarrow> StripComments raw = raw) \<and>
    (n < length raw \<and> raw ! n = CHR ''/'' \<longrightarrow>
       step raw (s\<lparr>comment := True, i := n\<rparr>) =
         (case IndexByte (drop (n + 1) raw) (CHR 0x0A) of
            None \<Rightarrow> s\<lparr>i := Suc (length raw)\<rparr>
          | Some j \<Rightarrow> s\<lparr>i := Suc (n + j)\<rparr>)) \<and>
    (n < length raw \<and> raw ! n = CHR ''*'' \<longrightarrow>
       step raw (s\<lparr>comment := True, i := n\<rparr>) =
         (case Index (drop (n + 1) raw) ''*/'' of
            None \<Rightarrow> s\<lparr>comment := True, i := Suc (length raw)\<rparr>
          | Some j \<Rightarrow> s\<lparr>i := Suc (n + (j + 2))\<rparr>))"
proof -
  have ne: "\<not> esc s" using reach_esc [OF assms(1)] assms(4) by blast
  have st: "step raw s = s\<lparr>comment := True, i := Suc (i s)\<rparr>"
    using assms(3,4,5) ne by (simp add: step_def body_def Let_def)
  have "loop raw (s\<lparr>comment := True, i := Suc (i s)\<rparr>) =
        loop raw (s\<lparr>comment := True, i := Suc (i s)\<rparr>\<lparr>i := n\<rparr>)"
    using assms(6,7,8) by (intro comment_skip) auto
  then have skip: "loop raw s = loop raw (s\<lparr>comment := True, i := n\<rparr>)"
    using loop_step [OF assms(2)] st by simp
  have "StripComments raw = raw" if "n = length raw"
  proof -
    have "loop raw init = s\<lparr>comment := True, i := n\<rparr>"
      using skip reach_loop [OF assms(1)] that by (simp add: loop_done)
    then show ?thesis by (simp add: StripComments_def)
  qed
  moreover have "step raw (s\<lparr>comment := True, i := n\<rparr>) =
         (case IndexByte (drop (n + 1) raw) (CHR 0x0A) of
            None \<Rightarrow> s\<lparr>i := Suc (length raw)\<rparr>
          | Some j \<Rightarrow> s\<lparr>i := Suc (n + j)\<rparr>)" if "raw ! n = CHR ''/''"
    using that assms(3) by (cases s) (simp add: step_def body_def Let_def split: option.split)
  moreover have "step raw (s\<lparr>comment := True, i := n\<rparr>) =
         (case Index (drop (n + 1) raw) ''*/'' of
            None \<Rightarrow> s\<lparr>comment := True, i := Suc (length raw)\<rparr>
          | Some j \<Rightarrow> s\<lparr>i := Suc (n + (j + 2))\<rparr>)" if "raw ! n = CHR ''*''"
    using that assms(3) by (cases s) (simp add: step_def body_def Let_def split: option.split)
  ultimately show ?thesis using skip by blast
qed

theorem slash_comment_mode_witness:
  "(let raw = ''a/b''; s = steps 1 raw init; n = 3 in
     reach raw s \<and> i s < length raw \<and> \<not> comment s \<and> \<not> quoted s \<and> raw ! i s = CHR ''/'' \<and>
     i s < n \<and> n \<le> length raw \<and>
     (\<forall>k. i s < k \<and> k < n \<longrightarrow> raw ! k \<noteq> CHR ''/'' \<and> raw ! k \<noteq> CHR ''*'') \<and>
     n = length raw \<and> StripComments raw = raw) \<and>
   (let raw = ''a/b/c''; s = steps 1 raw init; n = 3 in
     reach raw s \<and> i s < length raw \<and> \<not> comment s \<and> \<not> quoted s \<and> raw ! i s = CHR ''/'' \<and>
     i s < n \<and> n \<le> length raw \<and>
     (\<forall>k. i s < k \<and> k < n \<longrightarrow> raw ! k \<noteq> CHR ''/'' \<and> raw ! k \<noteq> CHR ''*'') \<and>
     n < length raw \<and> raw ! n = CHR ''/'' \<and>
     step raw (s\<lparr>comment := True, i := n\<rparr>) = s\<lparr>i := Suc (length raw)\<rparr>) \<and>
   (let raw = ''a/b*c*/d''; s = steps 1 raw init; n = 3 in
     reach raw s \<and> i s < length raw \<and> \<not> comment s \<and> \<not> quoted s \<and> raw ! i s = CHR ''/'' \<and>
     i s < n \<and> n \<le> length raw \<and>
     (\<forall>k. i s < k \<and> k < n \<longrightarrow> raw ! k \<noteq> CHR ''/'' \<and> raw ! k \<noteq> CHR ''*'') \<and>
     n < length raw \<and> raw ! n = CHR ''*'' \<and>
     step raw (s\<lparr>comment := True, i := n\<rparr>) = s\<lparr>i := 7\<rparr>)"
proof -
  let ?r1 = "''a/b''" and ?r2 = "''a/b/c''" and ?r3 = "''a/b*c*/d''"
  have g1: "reach r s \<Longrightarrow>
     i s < length r \<and> \<not> comment s \<and> \<not> quoted s \<and> r ! i s = CHR ''/'' \<and>
     i s < n \<and> n \<le> length r \<Longrightarrow>
     (\<forall>k. i s < k \<and> k < n \<longrightarrow> r ! k \<noteq> CHR ''/'' \<and> r ! k \<noteq> CHR ''*'') \<Longrightarrow>
     n = length r \<Longrightarrow>
     reach r s \<and> i s < length r \<and> \<not> comment s \<and> \<not> quoted s \<and> r ! i s = CHR ''/'' \<and>
     i s < n \<and> n \<le> length r \<and>
     (\<forall>k. i s < k \<and> k < n \<longrightarrow> r ! k \<noteq> CHR ''/'' \<and> r ! k \<noteq> CHR ''*'') \<and>
     n = length r \<and> StripComments r = r" for r s n
    using slash_comment_mode [of r s n] by blast
  have g2: "reach r s \<Longrightarrow>
     i s < length r \<and> \<not> comment s \<and> \<not> quoted s \<and> r ! i s = CHR ''/'' \<and>
     i s < n \<and> n \<le> length r \<Longrightarrow>
     (\<forall>k. i s < k \<and> k < n \<longrightarrow> r ! k \<noteq> CHR ''/'' \<and> r ! k \<noteq> CHR ''*'') \<Longrightarrow>
     n < length r \<and> r ! n = CHR ''/'' \<Longrightarrow>
     IndexByte (drop (n + 1) r) (CHR 0x0A) = None \<Longrightarrow>
     reach r s \<and> i s < length r \<and> \<not> comment s \<and> \<not> quoted s \<and> r ! i s = CHR ''/'' \<and>
     i s < n \<and> n \<le> length r \<and>
     (\<forall>k. i s < k \<and> k < n \<longrightarrow> r ! k \<noteq> CHR ''/'' \<and> r ! k \<noteq> CHR ''*'') \<and>
     n < length r \<and> r ! n = CHR ''/'' \<and>
     step r (s\<lparr>comment := True, i := n\<rparr>) = s\<lparr>i := Suc (length r)\<rparr>" for r s n
    using slash_comment_mode [of r s n] by simp
  have g3: "reach r s \<Longrightarrow>
     i s < length r \<and> \<not> comment s \<and> \<not> quoted s \<and> r ! i s = CHR ''/'' \<and>
     i s < n \<and> n \<le> length r \<Longrightarrow>
     (\<forall>k. i s < k \<and> k < n \<longrightarrow> r ! k \<noteq> CHR ''/'' \<and> r ! k \<noteq> CHR ''*'') \<Longrightarrow>
     n < length r \<and> r ! n = CHR ''*'' \<Longrightarrow>
     Index (drop (n + 1) r) ''*/'' = Some j \<Longrightarrow> Suc (n + (j + 2)) = m \<Longrightarrow>
     reach r s \<and> i s < length r \<and> \<not> comment s \<and> \<not> quoted s \<and> r ! i s = CHR ''/'' \<and>
     i s < n \<and> n \<le> length r \<and>
     (\<forall>k. i s < k \<and> k < n \<longrightarrow> r ! k \<noteq> CHR ''/'' \<and> r ! k \<noteq> CHR ''*'') \<and>
     n < length r \<and> r ! n = CHR ''*'' \<and>
     step r (s\<lparr>comment := True, i := n\<rparr>) = s\<lparr>i := m\<rparr>" for r s n j m
    using slash_comment_mode [of r s n] by simp
  have h: "i (steps 1 r init) < length r \<and> \<not> comment (steps 1 r init) \<and>
     \<not> quoted (steps 1 r init) \<and> r ! i (steps 1 r init) = CHR ''/'' \<and>
     i (steps 1 r init) < 3 \<and> 3 \<le> length r"
    if "r = ?r1 \<or> r = ?r2 \<or> r = ?r3" for r
    using that by (elim disjE) (simp_all, code_simp+)
  have k: "\<forall>k. i (steps 1 r init) < k \<and> k < 3 \<longrightarrow> r ! k \<noteq> CHR ''/'' \<and> r ! k \<noteq> CHR ''*''"
    if r: "r = ?r1 \<or> r = ?r2 \<or> r = ?r3" for r
  proof (intro allI impI)
    fix k assume a: "i (steps 1 r init) < k \<and> k < 3"
    have "i (steps 1 r init) = 1" using r by (elim disjE) (simp_all, code_simp+)
    then have "k = 2" using a by simp
    then show "r ! k \<noteq> CHR ''/'' \<and> r ! k \<noteq> CHR ''*''" using r by auto
  qed
  have l1: "3 = length ?r1" by simp
  have l2: "3 < length ?r2 \<and> ?r2 ! 3 = CHR ''/''" by simp
  have l3: "3 < length ?r3 \<and> ?r3 ! 3 = CHR ''*''" by simp
  have j2: "IndexByte (drop (3 + 1) ?r2) (CHR 0x0A) = None" by simp
  have j3: "Index (drop (3 + 1) ?r3) ''*/'' = Some 1" by simp
  have m3: "Suc (3 + (1 + 2)) = (7::nat)" by simp
  show ?thesis
    unfolding Let_def
    by (intro conjI [OF g1 [OF reach_steps h k l1] conjI [OF g2 [OF reach_steps h k l2 j2]
         g3 [OF reach_steps h k l3 j3 m3]]]) simp_all
qed

subsection \<open>Escapes inside quoted strings\<close>

text \<open>
  Claim C1 at the six bytes \<^verbatim>\<open>"a\"b"\<close>: the backslash sets the escape flag and
  leaves the iteration before the byte is written, and the escaped quote clears the flag and
  leaves the iteration before it is written too. The escaped quote is not taken for a quote
  boundary, but neither byte reaches the output: the result is the four bytes
  \<^verbatim>\<open>"ab"\<close>, not the input.
\<close>

theorem escaped_quote_dropped:
  "StripComments [CHR 0x22, CHR ''a'', CHR 0x5C, CHR 0x22, CHR ''b'', CHR 0x22] =
     [CHR 0x22, CHR ''a'', CHR ''b'', CHR 0x22]"
  by code_simp

subsection \<open>Variable tokens\<close>

lemma length_Split: "length (Split v c) = Suc (count_list v c)"
  by (induction v) auto

lemma Split_none: "c \<notin> set v \<Longrightarrow> Split v c = [v]"
  by (induction v) auto

lemma Split_one:
  "count_list v c = 1 \<Longrightarrow>
   Split v c = [takeWhile (\<lambda>x. x \<noteq> c) v, tl (dropWhile (\<lambda>x. x \<noteq> c) v)]"
proof (induction v)
  case Nil
  then show ?case by simp
next
  case (Cons x xs)
  show ?case
  proof (cases "x = c")
    case True
    then have "count_list xs c = 0" using Cons.prems by simp
    then have "c \<notin> set xs" by (simp add: count_list_0_iff)
    then show ?thesis using True by (simp add: Split_none)
  next
    case False
    then have "count_list xs c = 1" using Cons.prems by simp
    then show ?thesis using False Cons.IH by simp
  qed
qed

text \<open>
  Claim C4, as amended. \<^verbatim>\<open>Set\<close> succeeds exactly on the tokens with exactly one
  \<^verbatim>\<open>=\<close>: it then maps the text before the \<^verbatim>\<open>=\<close> to the text after it. A token
  with no \<^verbatim>\<open>=\<close> and a token with two or more are both rejected with the error
  \<^verbatim>\<open>expected NAME=VALUE, got ...\<close>.
\<close>

theorem Set_exactly_one:
  "Set l v =
     (if count_list v (CHR ''='') = 1
      then Inr (l(takeWhile (\<lambda>x. x \<noteq> CHR ''='') v \<mapsto> tl (dropWhile (\<lambda>x. x \<noteq> CHR ''='') v)))
      else Inl (''expected NAME=VALUE, got '' @ v))"
proof (cases "count_list v (CHR ''='') = 1")
  case False
  then show ?thesis by (simp add: Set_def length_Split)
next
  case True
  then show ?thesis by (simp add: Set_def Split_one [OF True])
qed

text \<open>The claim as stated fails: a token that contains \<^verbatim>\<open>=\<close> can be rejected.\<close>

theorem Set_counterexample:
  "CHR ''='' \<in> set ''A=B=C'' \<and> isl (Set Map.empty ''A=B=C'')"
  by (simp add: Set_def)

lemma Set_examples:
  "Set Map.empty ''A=B'' = Inr [''A'' \<mapsto> ''B'']"
  "Set Map.empty ''A'' = Inl ''expected NAME=VALUE, got A''"
  by (simp_all add: Set_def)

subsection \<open>Path arguments\<close>

lemma IndexByte_none: "c \<notin> set xs \<Longrightarrow> IndexByte xs c = None"
  by (induction xs) auto

lemma IndexByte_first: "c \<notin> set a \<Longrightarrow> IndexByte (a @ c # b) c = Some (length a)"
  by (induction a) auto

lemma ext_loop_suffix:
  "k \<le> length path \<Longrightarrow> ext_loop path k = [] \<or> (\<exists>j<k. ext_loop path k = drop j path)"
proof (induction k)
  case 0
  then show ?case by simp
next
  case (Suc k)
  then show ?case by (auto simp: less_Suc_eq)
qed

lemma Ext_suffix: "Ext path = e \<Longrightarrow> e \<noteq> [] \<Longrightarrow> suffix e path"
proof -
  assume a: "Ext path = e" and ne: "e \<noteq> []"
  from ext_loop_suffix [of "length path" path] a ne
  obtain j where "e = drop j path" by (auto simp: Ext_def)
  then show ?thesis by (simp add: suffix_drop)
qed

lemma Ext_tmpl: "Ext (stem @ ''.tmpl'') = ''.tmpl''"
proof -
  have "length (stem @ ''.tmpl'') = Suc (Suc (Suc (Suc (Suc (length stem)))))" by simp
  then show ?thesis by (simp add: Ext_def nth_append)
qed

lemma Ext_tmpl_iff: "Ext path = ''.tmpl'' \<longleftrightarrow> suffix ''.tmpl'' path"
proof
  assume "Ext path = ''.tmpl''"
  then show "suffix ''.tmpl'' path" by (rule Ext_suffix) simp
next
  assume "suffix ''.tmpl'' path"
  then obtain stem where "path = stem @ ''.tmpl''" by (auto simp: suffix_def)
  then show "Ext path = ''.tmpl''" by (simp only: Ext_tmpl)
qed

text \<open>
  Claim C5. An argument without \<^verbatim>\<open>=\<close> that ends in \<^verbatim>\<open>.tmpl\<close> is the input path, and
  the output path is the argument without that suffix; an argument without \<^verbatim>\<open>=\<close>
  that does not end in \<^verbatim>\<open>.tmpl\<close> ends the process with status 1 and a diagnostic; an
  argument with \<^verbatim>\<open>=\<close> is split at the first one, input path before and output path
  after, with no check of either.
\<close>

theorem parsePath_spec:
  "(CHR ''='' \<notin> set stem \<longrightarrow> parsePath (stem @ ''.tmpl'') = Inr (stem @ ''.tmpl'', stem)) \<and>
   (CHR ''='' \<notin> set path \<and> \<not> suffix ''.tmpl'' path \<longrightarrow>
      parsePath path = Inl (Exit 1 (''template file '' @ [CHR 0x27] @ path @ [CHR 0x27] @
                             '' must have .tmpl extension'' @ [CHR 0x0A]))) \<and>
   (CHR ''='' \<notin> set a \<longrightarrow> parsePath (a @ CHR ''='' # b) = Inr (a, b))"
proof (intro conjI impI)
  assume "CHR ''='' \<notin> set stem"
  then have "IndexByte (stem @ ''.tmpl'') (CHR ''='') = None"
    by (intro IndexByte_none) simp
  then show "parsePath (stem @ ''.tmpl'') = Inr (stem @ ''.tmpl'', stem)"
    by (simp add: parsePath_def Ext_tmpl del: append.simps append_Cons)
next
  assume a: "CHR ''='' \<notin> set path \<and> \<not> suffix ''.tmpl'' path"
  then have "IndexByte path (CHR ''='') = None" by (simp add: IndexByte_none)
  moreover have "Ext path \<noteq> ''.tmpl''" using a Ext_tmpl_iff by blast
  ultimately show "parsePath path =
      Inl (Exit 1 (''template file '' @ [CHR 0x27] @ path @ [CHR 0x27] @
                             '' must have .tmpl extension'' @ [CHR 0x0A]))"
    by (simp add: parsePath_def errExit_def)
next
  assume "CHR ''='' \<notin> set a"
  then show "parsePath (a @ CHR ''='' # b) = Inr (a, b)"
    by (simp add: parsePath_def IndexByte_first)
qed

theorem parsePath_spec_witness:
  "(CHR ''='' \<notin> set ''foo'' \<and> parsePath ''foo.tmpl'' = Inr (''foo.tmpl'', ''foo'')) \<and>
   (CHR ''='' \<notin> set ''foo.txt'' \<and> \<not> suffix ''.tmpl'' ''foo.txt'' \<and>
      isl (parsePath ''foo.txt'') \<and> status (projl (parsePath ''foo.txt'')) = 1) \<and>
   (CHR ''='' \<notin> set ''foo.tmpl'' \<and> parsePath ''foo.tmpl=bar.go'' = Inr (''foo.tmpl'', ''bar.go''))"
proof -
  have h1: "CHR ''='' \<notin> set ''foo''" by simp
  have h2: "CHR ''='' \<notin> set ''foo.txt'' \<and> \<not> suffix ''.tmpl'' ''foo.txt''"
    by (simp add: suffix_def append_eq_Cons_conv)
  have h3: "CHR ''='' \<notin> set ''foo.tmpl''" by simp
  have "parsePath (''foo'' @ ''.tmpl'') = Inr (''foo'' @ ''.tmpl'', ''foo'')"
    using parsePath_spec [of "''foo''"] h1 by blast
  moreover have "isl (parsePath ''foo.txt'') \<and> status (projl (parsePath ''foo.txt'')) = 1"
    using parsePath_spec [of _ "''foo.txt''"] h2 by simp
  moreover have "parsePath (''foo.tmpl'' @ CHR ''='' # ''bar.go'') = Inr (''foo.tmpl'', ''bar.go'')"
    using parsePath_spec [of _ _ "''foo.tmpl''" "''bar.go''"] h3 by blast
  ultimately show ?thesis using h1 h2 h3 by simp
qed

subsection \<open>The generated-file marker and the formatter\<close>






subsection \<open>Failures\<close>

lemma process_append:
  "process E f d (xs @ ys) st =
     (case process E f d xs st of
        (Some x, st') \<Rightarrow> (Some x, st')
      | (None, st') \<Rightarrow> process E f d ys st')"
  by (induction xs arbitrary: st) (auto split: prod.splits option.splits)

text \<open>
  Claim C9. Suppose the specs before some spec were processed without an exit, leaving
  the state \<open>st1\<close> (file system and log of writes). If reading the template of that spec
  fails, or parsing it, or executing it, or formatting the result, then the run ends with
  exit status 1 and a diagnostic, in the state \<open>st1\<close>: nothing is written for the failing
  spec, no later spec is processed, and what the earlier specs wrote is as they left it.
  The diagnostic of a read failure is what the \<^verbatim>\<open>fmt\<close> package prints for the text of
  the error taken as a format, and a newline.
\<close>

theorem fail_fast:
  assumes "process E formatter d pre st = (None, st1)"
  shows "(ReadFile E (fst st1) (in' spec) = Inl e \<longrightarrow>
       process E formatter d (pre @ spec # post) st =
         (Some (Exit 1 (Sprintf E e @ [CHR 0x0A])), st1)) \<and>
    (ReadFile E (fst st1) (in' spec) = Inr src \<and> Parse E src = Inl e \<longrightarrow>
       process E formatter d (pre @ spec # post) st =
         (Some (Exit 1 (''error processing template '' @ [CHR 0x27] @ in' spec @ [CHR 0x27] @
                        '': '' @ e @ [CHR 0x0A])), st1)) \<and>
    (ReadFile E (fst st1) (in' spec) = Inr src \<and> Parse E src = Inr t \<and>
     Execute E t d = Inl e \<longrightarrow>
       process E formatter d (pre @ spec # post) st =
         (Some (Exit 1 (''error executing template '' @ [CHR 0x27] @ in' spec @ [CHR 0x27] @
                        '': '' @ e @ [CHR 0x0A])), st1)) \<and>
    (ReadFile E (fst st1) (in' spec) = Inr src \<and> Parse E src = Inr t \<and>
     Execute E t d = Inr rendered \<and> IsGoFile spec \<and>
     formatter (''// Code generated by '' @ in' spec @ ''. DO NOT EDIT.'' @ [CHR 0x0A] @
                [CHR 0x0A] @ rendered) = Inl e \<longrightarrow>
       process E formatter d (pre @ spec # post) st =
         (Some (Exit 1 (''error formatting '' @ [CHR 0x27] @ in' spec @ [CHR 0x27] @
                        '': '' @ e @ [CHR 0x0A])), st1))"
  using assms
  by (simp add: process_append process_spec_def mustReadAll_def errExit_def)

theorem fail_fast_witness:
  "(let E = demo_env; d = \<lparr>In = ''{}'', D = Map.empty\<rparr>;
        ok = \<lparr>in' = ''a.tmpl'', out = ''a.txt''\<rparr>; later = \<lparr>in' = ''p.tmpl'', out = ''p.go''\<rparr>;
        st1 = ((''a.txt'', ''hello'') # demo_files, [(''a.txt'', ''hello'', 420)])
    in process E (Source E) d [ok] (demo_files, []) = (None, st1) \<and>
       process E (Source E) d [ok, \<lparr>in' = ''a%d.tmpl'', out = ''m.txt''\<rparr>, later]
         (demo_files, []) =
         (Some (Exit 1 (''open a%!d(MISSING).tmpl: no such file or directory'' @ [CHR 0x0A])),
          st1) \<and>
       process E (Source E) d [ok, \<lparr>in' = ''open.tmpl'', out = ''o.txt''\<rparr>, later]
         (demo_files, []) =
         (Some (Exit 1 (''error processing template '' @ [CHR 0x27] @ ''open.tmpl'' @
            [CHR 0x27] @ '': template: gen:1: unclosed action'' @ [CHR 0x0A])), st1) \<and>
       process E (Source E) d [ok, \<lparr>in' = ''field.tmpl'', out = ''f.txt''\<rparr>, later]
         (demo_files, []) =
         (Some (Exit 1 (''error executing template '' @ [CHR 0x27] @ ''field.tmpl'' @
            [CHR 0x27] @ '': '' @ demo_exec_error @ [CHR 0x0A])), st1) \<and>
       process E (Source E) d [ok, \<lparr>in' = ''bad.tmpl'', out = ''bad.go''\<rparr>, later]
         (demo_files, []) =
         (Some (Exit 1 (''error formatting '' @ [CHR 0x27] @ ''bad.tmpl'' @
            [CHR 0x27] @ '': '' @ demo_format_error @ [CHR 0x0A])), st1))"
proof -
  let ?E = "demo_env"
  let ?d = "\<lparr>In = ''{}'', D = Map.empty\<rparr> :: string data"
  let ?st = "(demo_files, []) :: (string \<times> string) list \<times> wcall list"
  let ?st1 = "((''a.txt'', ''hello'') # demo_files, [(''a.txt'', ''hello'', 420)])
                :: (string \<times> string) list \<times> wcall list"
  let ?ok = "\<lparr>in' = ''a.tmpl'', out = ''a.txt''\<rparr>"
  let ?later = "\<lparr>in' = ''p.tmpl'', out = ''p.go''\<rparr>"
  let ?s1 = "\<lparr>in' = ''a%d.tmpl'', out = ''m.txt''\<rparr>"
  let ?s2 = "\<lparr>in' = ''open.tmpl'', out = ''o.txt''\<rparr>"
  let ?s3 = "\<lparr>in' = ''field.tmpl'', out = ''f.txt''\<rparr>"
  let ?s4 = "\<lparr>in' = ''bad.tmpl'', out = ''bad.go''\<rparr>"
  let ?bad = "''package p'' @ [CHR 0x0A] @ ''}'' @ [CHR 0x0A]"
  have pre: "process ?E (Source ?E) ?d [?ok] ?st = (None, ?st1)" by code_simp
  have h1: "ReadFile ?E (fst ?st1) (in' ?s1) = Inl ''open a%d.tmpl: no such file or directory''"
    by (simp add: demo_env_def demo_files_def)
  have e1: "Sprintf ?E ''open a%d.tmpl: no such file or directory'' =
      ''open a%!d(MISSING).tmpl: no such file or directory''"
    by (simp add: demo_env_def)
  have h2: "ReadFile ?E (fst ?st1) (in' ?s2) = Inr ''{{'' \<and>
      Parse ?E ''{{'' = Inl ''template: gen:1: unclosed action''"
    by (simp add: demo_env_def demo_files_def)
  have h3: "ReadFile ?E (fst ?st1) (in' ?s3) = Inr ''{{.X}}'' \<and>
      Parse ?E ''{{.X}}'' = Inr ''{{.X}}'' \<and>
      Execute ?E ''{{.X}}'' ?d = Inl demo_exec_error"
    by (simp add: demo_env_def demo_files_def)
  have g4: "IsGoFile ?s4" by code_simp
  have h4: "ReadFile ?E (fst ?st1) (in' ?s4) = Inr ?bad \<and> Parse ?E ?bad = Inr ?bad \<and>
      Execute ?E ?bad ?d = Inr ?bad \<and> IsGoFile ?s4 \<and>
      Source ?E (''// Code generated by '' @ in' ?s4 @ ''. DO NOT EDIT.'' @ [CHR 0x0A] @
                [CHR 0x0A] @ ?bad) = Inl demo_format_error"
    using g4 by (simp add: demo_env_def demo_files_def)
  note c1 = fail_fast [OF pre, where spec = ?s1 and post = "[?later]",
      THEN conjunct1, THEN mp, OF h1]
  note c2 = fail_fast [OF pre, where spec = ?s2 and post = "[?later]",
      THEN conjunct2, THEN conjunct1, THEN mp, OF h2]
  note c3 = fail_fast [OF pre, where spec = ?s3 and post = "[?later]",
      THEN conjunct2, THEN conjunct2, THEN conjunct1, THEN mp, OF h3]
  note c4 = fail_fast [OF pre, where spec = ?s4 and post = "[?later]",
      THEN conjunct2, THEN conjunct2, THEN conjunct2, THEN mp, OF h4]
  show ?thesis unfolding Let_def using pre c1 [unfolded e1] c2 c3 c4 by simp
qed

text \<open>
  Claim C3 at a run whose only output path lies in a directory that does not exist:
  \<^verbatim>\<open>os.WriteFile\<close> returns an error, \<open>process\<close> does not look at it, \<open>main\<close> returns,
  and the process ends with status 0 and nothing on the error stream.
\<close>

theorem write_failure_exit_zero:
  "fst (WriteFile demo_env demo_files ''nodir/a.txt'' ''hello'' 420) =
     Some ''open nodir/a.txt: no such file or directory'' \<and>
   main demo_env ''data.json'' False Map.empty [''a.tmpl=nodir/a.txt''] demo_files =
     (None, demo_files, [(''nodir/a.txt'', ''hello'', 420)]) \<and>
   exit_status (fst (main demo_env ''data.json'' False Map.empty [''a.tmpl=nodir/a.txt'']
     demo_files)) = 0"
  by code_simp

end
